theory Spec2Isabelle
  imports Complex_Main
begin

section \<open>JavaScript values\<close>

text \<open>
  The sketches are JavaScript programs for p5.js and ml5.js. The embedding keeps
  what the sketches compute and store and leaves out what they only draw
  (\<open>circle\<close>, \<open>line\<close>, \<open>text\<close>, \<open>arc\<close>, \<open>rect\<close>, \<open>image\<close>,
  \<open>saveCanvas\<close>): those calls go to the drawing surface and change no variable of
  a sketch.

  \<^item> A variable that may hold \<open>null\<close> or \<open>undefined\<close> is an \<open>option\<close>; \<open>None\<close> stands
    for both, which the sketches never tell apart (they test with \<open>!v\<close>,
    \<open>v != null\<close> and \<open>v || d\<close>).
  \<^item> Objects are records. An object is truthy, so \<open>!v\<close> on an optional object is
    \<open>v = None\<close>.
  \<^item> A number is a \<open>real\<close>, and a number that only counts or indexes is an \<open>int\<close>
    (binary64 holds every integer up to \<open>2 ^ 53\<close>, and \<open>+ 1\<close>, \<open>- 1\<close> and \<open>%\<close> are
    exact below that). Comparisons are exact on binary64 as on the reals. The
    rounding of binary64 arithmetic is modelled where a property depends on it
    (\<open>binary64\<close>, in \<open>measureAngle_binary64\<close>) and left out elsewhere; \<open>NaN\<close> and the
    infinities are not part of the model: a coordinate or a confidence is a finite
    number.
  \<^item> Reading a property of \<open>null\<close> or \<open>undefined\<close> throws a \<open>TypeError\<close>; a function
    that can throw returns \<open>js_error + 'a\<close>, with \<open>Inl\<close> for the exception.
\<close>

datatype js_error = TypeError

definition ebind :: "js_error + 'a \<Rightarrow> ('a \<Rightarrow> js_error + 'b) \<Rightarrow> js_error + 'b" where
  "ebind m f = (case m of Inl e \<Rightarrow> Inl e | Inr v \<Rightarrow> f v)"

text \<open>\<open>a.length\<close>: throws on \<open>null\<close>.\<close>

definition js_length :: "'a list option \<Rightarrow> js_error + nat" where
  "js_length a = (case a of None \<Rightarrow> Inl TypeError | Some xs \<Rightarrow> Inr (length xs))"

text \<open>
  \<open>xs[i]\<close> on an array: the element when \<open>i\<close> is an index of the array,
  \<open>undefined\<close> otherwise (also for a negative \<open>i\<close>).
\<close>

definition js_index :: "'a list \<Rightarrow> int \<Rightarrow> 'a option" where
  "js_index xs i = (if 0 \<le> i \<and> i < int (length xs) then Some (xs ! nat i) else None)"

text \<open>\<open>a[i]\<close> on a variable that may be \<open>null\<close>: throws on \<open>null\<close>.\<close>

definition js_elem :: "'a list option \<Rightarrow> int \<Rightarrow> js_error + 'a option" where
  "js_elem a i = (case a of None \<Rightarrow> Inl TypeError | Some xs \<Rightarrow> Inr (js_index xs i))"

text \<open>\<open>v.f\<close> on a variable that may be \<open>null\<close>: throws on \<open>null\<close>.\<close>

definition js_field :: "('o \<Rightarrow> 'v) \<Rightarrow> 'o option \<Rightarrow> js_error + 'v" where
  "js_field f v = (case v of None \<Rightarrow> Inl TypeError | Some ob \<Rightarrow> Inr (f ob))"

text \<open>
  \<open>a % b\<close> on integers: the remainder of the division that truncates towards zero,
  with the sign of \<open>a\<close>.
\<close>

definition js_rem :: "int \<Rightarrow> int \<Rightarrow> int" where
  "js_rem a b = sgn a * (\<bar>a\<bar> mod \<bar>b\<bar>)"

section \<open>Data model\<close>

record point =
  x :: real
  y :: real

record keypoint = point +
  confidence :: real

record box =
  xMin :: real
  xMax :: real
  yMin :: real
  yMax :: real

text \<open>
  One detection of the model (a pose of bodyPose, a hand of handPose). Its
  \<open>keypoints\<close> array and its \<open>box\<close> may be missing.
\<close>

record detection =
  keypoints :: "keypoint list option"
  box :: "box option"

section \<open>The variables of the sketches\<close>

record video_sketch =
  showVideo :: bool

record pose_sketch = video_sketch +
  poses :: "detection list option"
  confidenceThreshold :: real

text \<open>\<open>examples/MoveNet_handRaiser/sketch.js\<close>\<close>

record handRaiser_state = pose_sketch +
  thresholdIndex :: int
  trackingIndex :: int
  crossCount :: int
  lastAboveThreshold :: bool

definition handRaiser_init :: handRaiser_state where
  "handRaiser_init =
     \<lparr>showVideo = True, poses = Some [], confidenceThreshold = 0.2,
      thresholdIndex = 0, trackingIndex = 10, crossCount = 0, lastAboveThreshold = False\<rparr>"

text \<open>The sketch that measures from a fixed point to a body point.\<close>

record fixedPoint_state = pose_sketch +
  boundingBoxes :: "box option list"
  centroid :: point
  bodyPointIndex :: int
  fixedPoint :: point

definition fixedPoint_init :: fixedPoint_state where
  "fixedPoint_init =
     \<lparr>showVideo = True, poses = Some [], confidenceThreshold = 0.2,
      boundingBoxes = [], centroid = \<lparr>x = 0, y = 0\<rparr>, bodyPointIndex = 2,
      fixedPoint = \<lparr>x = 320, y = 240\<rparr>\<rparr>"



text \<open>
  What the environment does to a sketch: ml5 delivers a result to the detection
  callback, p5 calls \<open>draw\<close> once per frame, and p5 calls \<open>mouseClicked\<close> (with
  \<open>mouseX\<close>, \<open>mouseY\<close>) and \<open>keyPressed\<close> (with \<open>key\<close>, \<open>keyCode\<close>).
\<close>

datatype event =
  Detected "detection list option"
  | Draw
  | MouseClicked real real
  | KeyPressed string int

text \<open>A run stops at the first exception that a handler lets through.\<close>

fun run :: "(event \<Rightarrow> 's \<Rightarrow> js_error + 's) \<Rightarrow> event list \<Rightarrow> 's \<Rightarrow> js_error + 's" where
  "run step [] s = Inr s"
| "run step (e # es) s = (case step e s of Inl err \<Rightarrow> Inl err | Inr s' \<Rightarrow> run step es s')"

section \<open>Keypoint lookup\<close>

text \<open>
  \<open>getKeypoint(pointIndex, personIndex)\<close>, the same function in both bodyPose
  sketches. It reads the sketch's \<open>poses\<close>.
\<close>

definition getKeypoint :: "int \<Rightarrow> int \<Rightarrow> 'a pose_sketch_scheme \<Rightarrow> js_error + keypoint option" where
  "getKeypoint pointIndex personIndex s =
     (if poses s = None then Inr None
      else ebind (js_length (poses s)) (\<lambda>n.
        if n = 0 then Inr None
        else ebind (js_elem (poses s) personIndex) (\<lambda>pose.
          if pose = None then Inr None
          else ebind (js_field keypoints pose) (\<lambda>kps.
            if kps = None then Inr None
            else ebind (js_elem kps pointIndex) (\<lambda>kp. Inr kp)))))"

section \<open>The hand raiser sketch\<close>

text \<open>\<open>gotPoses(results)\<close>: \<open>poses = results || []\<close>. An array is truthy, also an empty one.\<close>

definition gotPoses_handRaiser :: "detection list option \<Rightarrow> handRaiser_state \<Rightarrow> handRaiser_state" where
  "gotPoses_handRaiser results s =
     s\<lparr>poses := (case results of None \<Rightarrow> Some [] | Some r \<Rightarrow> Some r)\<rparr>"

text \<open>\<open>checkThresholdCross(thresholdPoint, trackingPoint)\<close>\<close>

definition checkThresholdCross ::
  "keypoint option \<Rightarrow> keypoint option \<Rightarrow> handRaiser_state \<Rightarrow> handRaiser_state" where
  "checkThresholdCross thresholdPoint trackingPoint s =
     (case (thresholdPoint, trackingPoint) of
        (Some tp, Some kp) \<Rightarrow>
          (let isAboveThreshold = (y kp < y tp);
               s1 = (if isAboveThreshold \<and> \<not> lastAboveThreshold s
                     then s\<lparr>crossCount := crossCount s + 1\<rparr> else s)
           in s1\<lparr>lastAboveThreshold := isAboveThreshold\<rparr>)
      | _ \<Rightarrow> s)"

text \<open>
  \<open>draw()\<close>: the test \<open>thresholdPoint && trackingPoint && thresholdPoint.confidence >
  confidenceThreshold && trackingPoint.confidence > confidenceThreshold\<close> reads a
  confidence only of a point that is there.
\<close>

definition draw_handRaiser :: "handRaiser_state \<Rightarrow> js_error + handRaiser_state" where
  "draw_handRaiser s =
     ebind (js_length (poses s)) (\<lambda>n.
       if n > 0 then
         ebind (getKeypoint (thresholdIndex s) 0 s) (\<lambda>thresholdPoint.
         ebind (getKeypoint (trackingIndex s) 0 s) (\<lambda>trackingPoint.
           case (thresholdPoint, trackingPoint) of
             (Some tp, Some kp) \<Rightarrow>
               if confidence tp > confidenceThreshold s \<and> confidence kp > confidenceThreshold s
               then Inr (checkThresholdCross thresholdPoint trackingPoint s)
               else Inr s
           | _ \<Rightarrow> Inr s))
       else Inr s)"

text \<open>\<open>keyPressed()\<close>: the space bar shows or hides the video; \<open>s\<close> only saves the canvas.\<close>

definition keyPressed_handRaiser :: "string \<Rightarrow> handRaiser_state \<Rightarrow> handRaiser_state" where
  "keyPressed_handRaiser k s = (if k = '' '' then s\<lparr>showVideo := \<not> showVideo s\<rparr> else s)"

text \<open>The sketch has no \<open>mouseClicked\<close>.\<close>

fun step_handRaiser :: "event \<Rightarrow> handRaiser_state \<Rightarrow> js_error + handRaiser_state" where
  "step_handRaiser (Detected results) s = Inr (gotPoses_handRaiser results s)"
| "step_handRaiser Draw s = draw_handRaiser s"
| "step_handRaiser (MouseClicked mx my) s = Inr s"
| "step_handRaiser (KeyPressed k code) s = Inr (keyPressed_handRaiser k s)"

subsection \<open>Frames\<close>

text \<open>A frame: the model delivers a result, then the sketch draws.\<close>

definition frames :: "detection list option list \<Rightarrow> event list" where
  "frames rs = concat (map (\<lambda>r. [Detected r, Draw]) rs)"

text \<open>
  The keypoint with index \<open>i\<close> of the first pose of a delivered result; \<open>None\<close> when
  nothing is delivered, no pose is detected, or the first pose has no such keypoint.
\<close>

definition keypointOf :: "detection list option \<Rightarrow> int \<Rightarrow> keypoint option" where
  "keypointOf results i =
     (case results of
        Some (pose # _) \<Rightarrow> (case keypoints pose of Some ks \<Rightarrow> js_index ks i | None \<Rightarrow> None)
      | _ \<Rightarrow> None)"

text \<open>A point that is present and more confident than the threshold \<open>ct\<close>.\<close>

definition confident :: "real \<Rightarrow> keypoint option \<Rightarrow> bool" where
  "confident ct p = (case p of Some k \<Rightarrow> confidence k > ct | None \<Rightarrow> False)"

text \<open>
  A valid frame: the result has the threshold point and the tracking point of the
  sketch, both confident.
\<close>

definition validFrame :: "handRaiser_state \<Rightarrow> detection list option \<Rightarrow> bool" where
  "validFrame s results =
     (confident (confidenceThreshold s) (keypointOf results (thresholdIndex s)) \<and>
      confident (confidenceThreshold s) (keypointOf results (trackingIndex s)))"

text \<open>
  Whether the tracking point of a frame is above the threshold point (a smaller
  \<open>y\<close> is higher on the screen).
\<close>

definition isAbove :: "handRaiser_state \<Rightarrow> detection list option \<Rightarrow> bool" where
  "isAbove s results =
     (case (keypointOf results (trackingIndex s), keypointOf results (thresholdIndex s)) of
        (Some kp, Some tp) \<Rightarrow> y kp < y tp
      | _ \<Rightarrow> False)"

text \<open>The number of steps from \<open>False\<close> to \<open>True\<close> in a sequence that starts after \<open>prev\<close>.\<close>

fun risingEdges :: "bool \<Rightarrow> bool list \<Rightarrow> int" where
  "risingEdges prev [] = 0"
| "risingEdges prev (b # bs) = (if b \<and> \<not> prev then 1 else 0) + risingEdges b bs"

section \<open>The fixed point sketch\<close>

text \<open>
  \<open>gotPoses(results)\<close>: stores the poses, the boxes that are there
  (\<open>poses.map(pose => pose.box).filter(box => box != null)\<close>) and the centre of the
  first of them, or the origin when \<open>boundingBoxes[0]\<close> is \<open>undefined\<close>.
\<close>

definition gotPoses_fixedPoint :: "detection list option \<Rightarrow> fixedPoint_state \<Rightarrow> fixedPoint_state" where
  "gotPoses_fixedPoint results s =
     (let ps = (case results of None \<Rightarrow> [] | Some r \<Rightarrow> r);
          bbs = filter (\<lambda>b. b \<noteq> None) (map box ps);
          c = (case js_index bbs 0 of
                 Some (Some b) \<Rightarrow>
                   (centroid s)\<lparr>x := (xMin b + xMax b) / 2, y := (yMin b + yMax b) / 2\<rparr>
               | _ \<Rightarrow> (centroid s)\<lparr>x := 0, y := 0\<rparr>)
      in s\<lparr>poses := Some ps, boundingBoxes := bbs, centroid := c\<rparr>)"

text \<open>\<open>measureDistance(point1, point2)\<close>: the distance, or \<open>null\<close>.\<close>

definition measureDistance :: "'a point_scheme option \<Rightarrow> 'b point_scheme option \<Rightarrow> real option" where
  "measureDistance point1 point2 =
     (case (point1, point2) of
        (Some p1, Some p2) \<Rightarrow>
          (let dx = x p2 - x p1; dy = y p2 - y p1 in Some (sqrt (dx * dx + dy * dy)))
      | _ \<Rightarrow> None)"

text \<open>
  \<open>Math.atan2(b, a)\<close> of ECMAScript on finite numbers: the angle of the point
  \<open>(a, b)\<close>, in \<open>(-\<pi>, \<pi>]\<close>, and \<open>0\<close> at the origin. (The reals have one zero: for
  the negative zero of binary64, \<open>Math.atan2(-0, a)\<close> with \<open>a < 0\<close> is \<open>-\<pi>\<close>.)
\<close>

definition Math_atan2 :: "real \<Rightarrow> real \<Rightarrow> real" where
  "Math_atan2 b a =
     (if a > 0 then arctan (b / a)
      else if a < 0 then (if b \<ge> 0 then arctan (b / a) + pi else arctan (b / a) - pi)
      else if b > 0 then pi / 2
      else if b < 0 then - pi / 2
      else 0)"

text \<open>\<open>measureAngle(basePoint, endPoint)\<close>: the angle in degrees, or \<open>null\<close>.\<close>

definition measureAngle :: "'a point_scheme option \<Rightarrow> 'b point_scheme option \<Rightarrow> real option" where
  "measureAngle basePoint endPoint =
     (case (basePoint, endPoint) of
        (Some bp, Some ep) \<Rightarrow>
          (let dx = x ep - x bp; dy = y ep - y bp;
               angle = Math_atan2 dy dx * 180 / pi
           in Some (if angle < 0 then angle + 360 else angle))
      | _ \<Rightarrow> None)"

text \<open>
  The nearest integer, and the even one of the two when they are equally near.
\<close>

definition roundHalfEven :: "real \<Rightarrow> int" where
  "roundHalfEven q =
     (let f = \<lfloor>q\<rfloor> in
      if q - of_int f < 1 / 2 then f
      else if q - of_int f > 1 / 2 then f + 1
      else if even f then f else f + 1)"

text \<open>
  The binary64 number nearest to a real (round to nearest, ties to even), as IEEE-754
  arithmetic rounds the exact result of an operation: a number between \<open>2 ^ e\<close> and
  \<open>2 ^ (e + 1)\<close> is rounded to a multiple of \<open>2 ^ (e - 52)\<close>. (Without the limits of
  the exponent: no overflow and no subnormal numbers.)
\<close>

definition binary64 :: "real \<Rightarrow> real" where
  "binary64 r =
     (if r = 0 then 0
      else (let e = \<lfloor>log 2 \<bar>r\<bar>\<rfloor>; ulp = 2 powr (of_int e - 52)
            in of_int (roundHalfEven (r / ulp)) * ulp))"

text \<open>
  \<open>measureAngle\<close> with the addition \<open>angle += 360\<close> as binary64 performs it: the sum
  is rounded. The angle that the addition receives is left as the real number it
  approximates; what is proved of this function below holds for every angle in the
  same range, whatever its last digits.
\<close>

definition measureAngle_binary64 :: "'a point_scheme option \<Rightarrow> 'b point_scheme option \<Rightarrow> real option" where
  "measureAngle_binary64 basePoint endPoint =
     (case (basePoint, endPoint) of
        (Some bp, Some ep) \<Rightarrow>
          (let dx = x ep - x bp; dy = y ep - y bp;
               angle = Math_atan2 dy dx * 180 / pi
           in Some (if angle < 0 then binary64 (angle + 360) else angle))
      | _ \<Rightarrow> None)"

text \<open>
  \<open>draw()\<close> changes no variable. \<open>drawMeasures\<close> is what it computes on the way: its
  locals \<open>distance\<close> and \<open>angle\<close>, when it reaches them.
\<close>

definition drawMeasures :: "fixedPoint_state \<Rightarrow> js_error + (real option \<times> real option) option" where
  "drawMeasures s =
     (let referencePoint = \<lparr>x = x (fixedPoint s), y = y (fixedPoint s)\<rparr> in
      ebind (js_length (poses s)) (\<lambda>n.
        if n > 0 then
          ebind (getKeypoint (bodyPointIndex s) 0 s) (\<lambda>bodyPoint.
            case bodyPoint of
              Some bp \<Rightarrow>
                if confidence bp > confidenceThreshold s
                then Inr (Some (measureDistance (Some referencePoint) bodyPoint,
                                measureAngle (Some referencePoint) bodyPoint))
                else Inr None
            | None \<Rightarrow> Inr None)
        else Inr None))"

definition draw_fixedPoint :: "fixedPoint_state \<Rightarrow> js_error + fixedPoint_state" where
  "draw_fixedPoint s = ebind (drawMeasures s) (\<lambda>_. Inr s)"

text \<open>\<open>mouseClicked()\<close>\<close>

definition mouseClicked :: "real \<Rightarrow> real \<Rightarrow> fixedPoint_state \<Rightarrow> fixedPoint_state" where
  "mouseClicked mouseX mouseY s = s\<lparr>fixedPoint := (fixedPoint s)\<lparr>x := mouseX, y := mouseY\<rparr>\<rparr>"

text \<open>The key codes \<open>LEFT_ARROW\<close> and \<open>RIGHT_ARROW\<close>, constants of p5.js.\<close>

definition LEFT_ARROW :: int where
  "LEFT_ARROW = 37"

definition RIGHT_ARROW :: int where
  "RIGHT_ARROW = 39"

text \<open>\<open>keyPressed()\<close>: three tests, one after the other.\<close>

definition keyPressed_fixedPoint :: "string \<Rightarrow> int \<Rightarrow> fixedPoint_state \<Rightarrow> fixedPoint_state" where
  "keyPressed_fixedPoint k keyCode s =
     (let s1 = (if k = '' '' then s\<lparr>showVideo := \<not> showVideo s\<rparr> else s);
          s2 = (if keyCode = LEFT_ARROW
                then s1\<lparr>bodyPointIndex := js_rem (bodyPointIndex s1 - 1 + 17) 17\<rparr> else s1);
          s3 = (if keyCode = RIGHT_ARROW
                then s2\<lparr>bodyPointIndex := js_rem (bodyPointIndex s2 + 1) 17\<rparr> else s2)
      in s3)"

fun step_fixedPoint :: "event \<Rightarrow> fixedPoint_state \<Rightarrow> js_error + fixedPoint_state" where
  "step_fixedPoint (Detected results) s = Inr (gotPoses_fixedPoint results s)"
| "step_fixedPoint Draw s = draw_fixedPoint s"
| "step_fixedPoint (MouseClicked mx my) s = Inr (mouseClicked mx my s)"
| "step_fixedPoint (KeyPressed k code) s = Inr (keyPressed_fixedPoint k code s)"

section \<open>The handPose sketch\<close>






section \<open>Sample inputs\<close>

text \<open>
  A result with one pose of eleven keypoints: the nose (index 0) at height \<open>noseY\<close>,
  the right wrist (index 10) at height \<open>wristY\<close>, both with confidence \<open>c\<close>.
\<close>

definition sampleFrame :: "real \<Rightarrow> real \<Rightarrow> real \<Rightarrow> detection list option" where
  "sampleFrame noseY wristY c =
     Some [\<lparr>keypoints = Some (\<lparr>x = 320, y = noseY, confidence = c\<rparr> #
                               replicate 9 \<lparr>x = 0, y = 0, confidence = 0\<rparr> @
                               [\<lparr>x = 400, y = wristY, confidence = c\<rparr>]),
            box = None\<rparr>]"

text \<open>A bounding box with centre \<open>(200, 250)\<close>.\<close>

definition sampleBox :: box where
  "sampleBox = \<lparr>xMin = 100, xMax = 300, yMin = 50, yMax = 450\<rparr>"

section \<open>Properties of the keypoint lookup\<close>

lemma getKeypoint_Some:
  "poses s = Some ps \<Longrightarrow>
   getKeypoint pointIndex personIndex s =
     Inr (case js_index ps personIndex of
            None \<Rightarrow> None
          | Some pose \<Rightarrow> (case keypoints pose of None \<Rightarrow> None | Some ks \<Rightarrow> js_index ks pointIndex))"
  by (cases ps)
     (auto simp: getKeypoint_def ebind_def js_length_def js_elem_def js_field_def js_index_def
           split: option.splits)

lemma getKeypoint_None: "poses s = None \<Longrightarrow> getKeypoint pointIndex personIndex s = Inr None"
  by (simp add: getKeypoint_def)

lemma getKeypoint_total: "\<exists>r. getKeypoint pointIndex personIndex s = Inr r"
  by (cases "poses s") (simp_all add: getKeypoint_None getKeypoint_Some)

text \<open>
  Claim C3. \<open>getKeypoint\<close> never throws. On a list of detections it returns a
  keypoint exactly when the list is not empty, \<open>personIndex\<close> is an index of the
  list, that detection has a keypoints list and \<open>pointIndex\<close> is an index of it, and
  then it returns the keypoint stored there; in every other case it returns \<open>null\<close>,
  so on the empty list, and for a \<open>personIndex\<close> out of range.
\<close>

theorem getKeypoint_contract:
  "(\<exists>r. getKeypoint pointIndex personIndex s = Inr r) \<and>
   (poses s = None \<longrightarrow> getKeypoint pointIndex personIndex s = Inr None) \<and>
   (\<forall>ps. poses s = Some ps \<longrightarrow>
      (\<forall>k. getKeypoint pointIndex personIndex s = Inr (Some k) \<longleftrightarrow>
         ps \<noteq> [] \<and> 0 \<le> personIndex \<and> personIndex < int (length ps) \<and>
         (\<exists>ks. keypoints (ps ! nat personIndex) = Some ks \<and>
               0 \<le> pointIndex \<and> pointIndex < int (length ks) \<and> ks ! nat pointIndex = k)) \<and>
      ((\<nexists>k. getKeypoint pointIndex personIndex s = Inr (Some k)) \<longrightarrow>
         getKeypoint pointIndex personIndex s = Inr None) \<and>
      (ps = [] \<longrightarrow> getKeypoint pointIndex personIndex s = Inr None) \<and>
      (personIndex < 0 \<or> int (length ps) \<le> personIndex \<longrightarrow>
         getKeypoint pointIndex personIndex s = Inr None))"
proof (intro conjI allI impI)
  show "\<exists>r. getKeypoint pointIndex personIndex s = Inr r"
    by (rule getKeypoint_total)
next
  assume "poses s = None"
  then show "getKeypoint pointIndex personIndex s = Inr None"
    by (rule getKeypoint_None)
next
  fix ps k
  assume ps: "poses s = Some ps"
  show "getKeypoint pointIndex personIndex s = Inr (Some k) \<longleftrightarrow>
         ps \<noteq> [] \<and> 0 \<le> personIndex \<and> personIndex < int (length ps) \<and>
         (\<exists>ks. keypoints (ps ! nat personIndex) = Some ks \<and>
               0 \<le> pointIndex \<and> pointIndex < int (length ks) \<and> ks ! nat pointIndex = k)"
    by (auto simp: getKeypoint_Some [OF ps] js_index_def split: option.splits if_splits)
next
  fix ps
  assume ps: "poses s = Some ps"
    and no: "\<nexists>k. getKeypoint pointIndex personIndex s = Inr (Some k)"
  from getKeypoint_total obtain r where r: "getKeypoint pointIndex personIndex s = Inr r"
    by blast
  with no show "getKeypoint pointIndex personIndex s = Inr None"
    by (cases r) auto
next
  fix ps
  assume "poses s = Some ps" "ps = []"
  then show "getKeypoint pointIndex personIndex s = Inr None"
    by (auto simp: getKeypoint_Some js_index_def)
next
  fix ps
  assume "poses s = Some ps" "personIndex < 0 \<or> int (length ps) \<le> personIndex"
  then show "getKeypoint pointIndex personIndex s = Inr None"
    by (auto simp: getKeypoint_Some js_index_def)
qed

theorem getKeypoint_contract_witness:
  "getKeypoint 10 0 (handRaiser_init\<lparr>poses := sampleFrame 100 200 0.9\<rparr>) =
     Inr (Some \<lparr>x = 400, y = 200, confidence = 0.9\<rparr>) \<and>
   getKeypoint 11 0 (handRaiser_init\<lparr>poses := sampleFrame 100 200 0.9\<rparr>) = Inr None \<and>
   getKeypoint 10 1 (handRaiser_init\<lparr>poses := sampleFrame 100 200 0.9\<rparr>) = Inr None \<and>
   getKeypoint 10 0 (handRaiser_init\<lparr>poses := Some []\<rparr>) = Inr None \<and>
   getKeypoint 10 0 (handRaiser_init\<lparr>poses := None\<rparr>) = Inr None"
proof -
  let ?s = "handRaiser_init\<lparr>poses := sampleFrame 100 200 0.9\<rparr>"
  let ?e = "handRaiser_init\<lparr>poses := Some []\<rparr>"
  let ?n = "handRaiser_init\<lparr>poses := None\<rparr>"
  let ?ks = "\<lparr>x = 320, y = 100, confidence = 0.9\<rparr> #
               replicate 9 \<lparr>x = 0, y = 0, confidence = 0\<rparr> @
               [\<lparr>x = 400, y = 200, confidence = 0.9\<rparr>]"
  let ?ps = "[\<lparr>keypoints = Some ?ks, box = None\<rparr>]"
  have ps: "poses ?s = Some ?ps"
    by (simp add: sampleFrame_def)
  have e: "poses ?e = Some []"
    by simp
  have n: "poses ?n = None"
    by simp
  have at10: "?ks ! nat 10 = \<lparr>x = 400, y = 200, confidence = 0.9\<rparr>"
    by (simp add: nth_append)
  note c10 = getKeypoint_contract [of 10 0 ?s, THEN conjunct2, THEN conjunct2, THEN spec, THEN mp, OF ps]
  note c11 = getKeypoint_contract [of 11 0 ?s, THEN conjunct2, THEN conjunct2, THEN spec, THEN mp, OF ps]
  have "getKeypoint 10 0 ?s = Inr (Some \<lparr>x = 400, y = 200, confidence = 0.9\<rparr>)"
  proof (rule c10 [THEN conjunct1, THEN spec, THEN iffD2], intro conjI exI)
    show "keypoints (?ps ! nat 0) = Some ?ks" by simp
    show "?ks ! nat 10 = \<lparr>x = 400, y = 200, confidence = 0.9\<rparr>" by (rule at10)
    show "(10::int) < int (length ?ks)" by simp
  qed simp_all
  moreover have "getKeypoint 11 0 ?s = Inr None"
  proof (rule c11 [THEN conjunct2, THEN conjunct1, THEN mp], rule notI)
    assume "\<exists>k. getKeypoint 11 0 ?s = Inr (Some k)"
    then obtain k where "getKeypoint 11 0 ?s = Inr (Some k)"
      by blast
    from c11 [THEN conjunct1, THEN spec, THEN iffD1, OF this]
    obtain ks where "keypoints (?ps ! nat 0) = Some ks" "(11::int) < int (length ks)"
      by blast
    then show False
      by auto
  qed
  moreover have "getKeypoint 10 1 ?s = Inr None"
    by (rule getKeypoint_contract [of 10 1 ?s, THEN conjunct2, THEN conjunct2, THEN spec,
          THEN mp, OF ps, THEN conjunct2, THEN conjunct2, THEN conjunct2, THEN mp]) simp
  moreover have "getKeypoint 10 0 ?e = Inr None"
    by (rule getKeypoint_contract [of 10 0 ?e, THEN conjunct2, THEN conjunct2, THEN spec,
          THEN mp, OF e, THEN conjunct2, THEN conjunct2, THEN conjunct1, THEN mp]) simp
  moreover have "getKeypoint 10 0 ?n = Inr None"
    by (rule getKeypoint_contract [of 10 0 ?n, THEN conjunct2, THEN conjunct1, THEN mp, OF n])
  ultimately show ?thesis
    by simp
qed

section \<open>Properties of the threshold counter\<close>

lemma run_append:
  "run step (es1 @ es2) s = ebind (run step es1 s) (run step es2)"
  by (induction es1 arbitrary: s) (auto simp: ebind_def split: sum.splits)

lemma keypointOf_getKeypoint:
  "poses s = Some ps \<Longrightarrow> getKeypoint i 0 s = Inr (keypointOf (Some ps) i)"
  by (cases ps) (auto simp: getKeypoint_Some keypointOf_def js_index_def split: option.splits)

lemma keypointOf_None [simp]: "keypointOf None i = None"
  by (simp add: keypointOf_def)

lemma keypointOf_Nil [simp]: "keypointOf (Some []) i = None"
  by (simp add: keypointOf_def)

lemma poses_gotPoses_handRaiser:
  "poses (gotPoses_handRaiser results s) = Some (case results of None \<Rightarrow> [] | Some r \<Rightarrow> r)"
  by (simp add: gotPoses_handRaiser_def split: option.splits)

lemma keypointOf_gotPoses:
  "getKeypoint i 0 (gotPoses_handRaiser results s) = Inr (keypointOf results i)"
  by (cases results)
     (simp_all add: keypointOf_getKeypoint [OF poses_gotPoses_handRaiser])

lemma settings_gotPoses_handRaiser [simp]:
  "thresholdIndex (gotPoses_handRaiser results s) = thresholdIndex s"
  "trackingIndex (gotPoses_handRaiser results s) = trackingIndex s"
  "confidenceThreshold (gotPoses_handRaiser results s) = confidenceThreshold s"
  "crossCount (gotPoses_handRaiser results s) = crossCount s"
  "lastAboveThreshold (gotPoses_handRaiser results s) = lastAboveThreshold s"
  by (simp_all add: gotPoses_handRaiser_def)

lemma checkThresholdCross_step:
  "checkThresholdCross (Some tp) (Some kp) s =
     s\<lparr>crossCount := crossCount s + (if y kp < y tp \<and> \<not> lastAboveThreshold s then 1 else 0),
       lastAboveThreshold := (y kp < y tp)\<rparr>"
  by (simp add: checkThresholdCross_def Let_def)

lemma draw_after_gotPoses:
  "draw_handRaiser (gotPoses_handRaiser results s) =
     Inr (if validFrame s results
          then checkThresholdCross (keypointOf results (thresholdIndex s))
                 (keypointOf results (trackingIndex s)) (gotPoses_handRaiser results s)
          else gotPoses_handRaiser results s)"
  by (cases results)
     (auto simp: draw_handRaiser_def ebind_def js_length_def poses_gotPoses_handRaiser
        keypointOf_gotPoses validFrame_def confident_def
        split: option.splits)

lemma frame_handRaiser:
  "run step_handRaiser (frames [results]) s =
     Inr (if validFrame s results
          then (gotPoses_handRaiser results s)
                 \<lparr>crossCount := crossCount s + (if isAbove s results \<and> \<not> lastAboveThreshold s then 1 else 0),
                  lastAboveThreshold := isAbove s results\<rparr>
          else gotPoses_handRaiser results s)"
  by (auto simp: frames_def draw_after_gotPoses validFrame_def confident_def isAbove_def
        checkThresholdCross_step split: option.splits)


lemma frames_Cons: "frames (r # rs) = frames [r] @ frames rs"
  by (simp add: frames_def)

lemma validFrame_cong:
  "thresholdIndex s' = thresholdIndex s \<Longrightarrow> trackingIndex s' = trackingIndex s \<Longrightarrow>
   confidenceThreshold s' = confidenceThreshold s \<Longrightarrow>
   validFrame s' = validFrame s \<and> isAbove s' = isAbove s"
  by (auto simp: validFrame_def isAbove_def fun_eq_iff)

lemma frame_handRaiser_fields:
  "\<exists>s'. run step_handRaiser (frames [r]) s = Inr s' \<and>
        thresholdIndex s' = thresholdIndex s \<and> trackingIndex s' = trackingIndex s \<and>
        confidenceThreshold s' = confidenceThreshold s \<and>
        crossCount s' = crossCount s +
          (if validFrame s r \<and> isAbove s r \<and> \<not> lastAboveThreshold s then 1 else 0) \<and>
        lastAboveThreshold s' = (if validFrame s r then isAbove s r else lastAboveThreshold s)"
  by (simp add: frame_handRaiser)

lemma frames_valid_run:
  "\<forall>r\<in>set rs. validFrame s r \<Longrightarrow>
   \<exists>s'. run step_handRaiser (frames rs) s = Inr s' \<and>
        thresholdIndex s' = thresholdIndex s \<and> trackingIndex s' = trackingIndex s \<and>
        confidenceThreshold s' = confidenceThreshold s \<and>
        crossCount s' = crossCount s + risingEdges (lastAboveThreshold s) (map (isAbove s) rs) \<and>
        lastAboveThreshold s' = last (lastAboveThreshold s # map (isAbove s) rs)"
proof (induction rs arbitrary: s)
  case Nil
  then show ?case by (simp add: frames_def)
next
  case (Cons r rs)
  from frame_handRaiser_fields [of r s] obtain s1 where
    s1: "run step_handRaiser (frames [r]) s = Inr s1"
      "thresholdIndex s1 = thresholdIndex s" "trackingIndex s1 = trackingIndex s"
      "confidenceThreshold s1 = confidenceThreshold s"
      "crossCount s1 = crossCount s +
          (if validFrame s r \<and> isAbove s r \<and> \<not> lastAboveThreshold s then 1 else 0)"
      "lastAboveThreshold s1 = (if validFrame s r then isAbove s r else lastAboveThreshold s)"
    by blast
  have same: "validFrame s1 = validFrame s" "isAbove s1 = isAbove s"
    using validFrame_cong [OF s1(2-4)] by simp_all
  from Cons.prems have r: "validFrame s r" and rs: "\<forall>r\<in>set rs. validFrame s1 r"
    by (simp_all add: same)
  from Cons.IH [OF rs] obtain s' where
    s': "run step_handRaiser (frames rs) s1 = Inr s'"
      "thresholdIndex s' = thresholdIndex s1" "trackingIndex s' = trackingIndex s1"
      "confidenceThreshold s' = confidenceThreshold s1"
      "crossCount s' = crossCount s1 + risingEdges (lastAboveThreshold s1) (map (isAbove s1) rs)"
      "lastAboveThreshold s' = last (lastAboveThreshold s1 # map (isAbove s1) rs)"
    by blast
  have "run step_handRaiser (frames (r # rs)) s = Inr s'"
    by (subst frames_Cons) (simp add: run_append s1(1) s'(1) ebind_def)
  with s1 s' r show ?case
    by (simp add: same)
qed

lemma sampleFrame_points:
  "keypointOf (sampleFrame noseY wristY c) 0 = Some \<lparr>x = 320, y = noseY, confidence = c\<rparr>"
  "keypointOf (sampleFrame noseY wristY c) 10 = Some \<lparr>x = 400, y = wristY, confidence = c\<rparr>"
  by (simp_all add: sampleFrame_def keypointOf_def js_index_def nth_append)

lemma sampleFrame_valid:
  "validFrame handRaiser_init (sampleFrame noseY wristY c) = (c > 0.2)"
  "isAbove handRaiser_init (sampleFrame noseY wristY c) = (wristY < noseY)"
  by (simp_all add: validFrame_def isAbove_def handRaiser_init_def sampleFrame_points confident_def)

text \<open>
  Claim C1. A call of \<open>checkThresholdCross\<close> on two points computes
  \<open>isAbove = trackingPoint.y < thresholdPoint.y\<close>, adds one to \<open>crossCount\<close> when
  \<open>isAbove\<close> holds and the flag was \<open>false\<close>, leaves \<open>crossCount\<close> as it is otherwise,
  and sets the flag to \<open>isAbove\<close>. A frame in which both points are present and
  confident makes exactly this call. From the initial state (flag \<open>false\<close>, count
  \<open>0\<close>), after any sequence of such frames \<open>crossCount\<close> is the number of steps from
  \<open>false\<close> to \<open>true\<close> in the sequence of their \<open>isAbove\<close> values, and it is \<open>2\<close> for
  the sequence false, false, true, true, false, true.
\<close>

theorem threshold_cross_counter:
  "(\<forall>tp kp s. checkThresholdCross (Some tp) (Some kp) s =
      s\<lparr>crossCount := crossCount s + (if y kp < y tp \<and> \<not> lastAboveThreshold s then 1 else 0),
        lastAboveThreshold := (y kp < y tp)\<rparr>) \<and>
   (\<forall>s r. validFrame s r \<longrightarrow>
      run step_handRaiser (frames [r]) s =
        Inr (checkThresholdCross (keypointOf r (thresholdIndex s)) (keypointOf r (trackingIndex s))
               (gotPoses_handRaiser r s))) \<and>
   (\<forall>rs. (\<forall>r\<in>set rs. validFrame handRaiser_init r) \<longrightarrow>
      (\<exists>s. run step_handRaiser (frames rs) handRaiser_init = Inr s \<and>
           crossCount s = risingEdges False (map (isAbove handRaiser_init) rs) \<and>
           lastAboveThreshold s = last (False # map (isAbove handRaiser_init) rs) \<and>
           (map (isAbove handRaiser_init) rs = [False, False, True, True, False, True] \<longrightarrow>
              crossCount s = 2)))"
proof (intro conjI allI impI)
  fix tp kp s
  show "checkThresholdCross (Some tp) (Some kp) s =
      s\<lparr>crossCount := crossCount s + (if y kp < y tp \<and> \<not> lastAboveThreshold s then 1 else 0),
        lastAboveThreshold := (y kp < y tp)\<rparr>"
    by (rule checkThresholdCross_step)
next
  fix s r
  assume "validFrame s r"
  then show "run step_handRaiser (frames [r]) s =
        Inr (checkThresholdCross (keypointOf r (thresholdIndex s)) (keypointOf r (trackingIndex s))
               (gotPoses_handRaiser r s))"
    by (simp add: frames_def draw_after_gotPoses)
next
  fix rs
  assume "\<forall>r\<in>set rs. validFrame handRaiser_init r"
  from frames_valid_run [OF this] obtain s where
    s: "run step_handRaiser (frames rs) handRaiser_init = Inr s"
      "crossCount s = crossCount handRaiser_init +
         risingEdges (lastAboveThreshold handRaiser_init) (map (isAbove handRaiser_init) rs)"
      "lastAboveThreshold s =
         last (lastAboveThreshold handRaiser_init # map (isAbove handRaiser_init) rs)"
    by blast
  have init: "crossCount handRaiser_init = 0" "lastAboveThreshold handRaiser_init = False"
    by (simp_all add: handRaiser_init_def)
  show "\<exists>s. run step_handRaiser (frames rs) handRaiser_init = Inr s \<and>
           crossCount s = risingEdges False (map (isAbove handRaiser_init) rs) \<and>
           lastAboveThreshold s = last (False # map (isAbove handRaiser_init) rs) \<and>
           (map (isAbove handRaiser_init) rs = [False, False, True, True, False, True] \<longrightarrow>
              crossCount s = 2)"
    using s by (auto simp: init)
qed

theorem threshold_cross_counter_witness:
  "(\<exists>s. run step_handRaiser (frames [sampleFrame 100 50 0.9]) handRaiser_init = Inr s \<and>
        crossCount s = 1 \<and> lastAboveThreshold s) \<and>
   (\<exists>s. run step_handRaiser
          (frames [sampleFrame 100 200 0.9, sampleFrame 100 180 0.9, sampleFrame 100 90 0.9,
                   sampleFrame 100 50 0.9, sampleFrame 100 150 0.9, sampleFrame 100 60 0.9])
          handRaiser_init = Inr s \<and>
        crossCount s = 2 \<and> lastAboveThreshold s)"
proof (intro conjI)
  have valid: "validFrame handRaiser_init (sampleFrame 100 50 0.9)"
    by (simp add: sampleFrame_valid)
  have idx: "thresholdIndex handRaiser_init = 0" "trackingIndex handRaiser_init = 10"
    "crossCount handRaiser_init = 0" "\<not> lastAboveThreshold handRaiser_init"
    by (simp_all add: handRaiser_init_def)
  note call = threshold_cross_counter [THEN conjunct2, THEN conjunct1, THEN spec, THEN spec,
      THEN mp, OF valid]
  note step = threshold_cross_counter [THEN conjunct1, THEN spec, THEN spec, THEN spec]
  show "\<exists>s. run step_handRaiser (frames [sampleFrame 100 50 0.9]) handRaiser_init = Inr s \<and>
        crossCount s = 1 \<and> lastAboveThreshold s"
    unfolding call idx sampleFrame_points step
    by (simp add: idx)
next
  let ?rs = "[sampleFrame 100 200 0.9, sampleFrame 100 180 0.9, sampleFrame 100 90 0.9,
              sampleFrame 100 50 0.9, sampleFrame 100 150 0.9, sampleFrame 100 60 0.9]"
  have valid: "\<forall>r\<in>set ?rs. validFrame handRaiser_init r"
    by (simp add: sampleFrame_valid)
  have above: "map (isAbove handRaiser_init) ?rs = [False, False, True, True, False, True]"
    by (simp add: sampleFrame_valid)
  from threshold_cross_counter [THEN conjunct2, THEN conjunct2, THEN spec, THEN mp, OF valid]
  show "\<exists>s. run step_handRaiser (frames ?rs) handRaiser_init = Inr s \<and>
        crossCount s = 2 \<and> lastAboveThreshold s"
    unfolding above by auto
qed

lemma not_validFrame_iff:
  "\<not> validFrame s r \<longleftrightarrow>
     keypointOf r (thresholdIndex s) = None \<or> keypointOf r (trackingIndex s) = None \<or>
     (\<exists>k. keypointOf r (thresholdIndex s) = Some k \<and> confidence k \<le> confidenceThreshold s) \<or>
     (\<exists>k. keypointOf r (trackingIndex s) = Some k \<and> confidence k \<le> confidenceThreshold s)"
  by (auto simp: validFrame_def confident_def split: option.splits)

lemma draw_handRaiser_invalid:
  assumes "poses s \<noteq> None" and "\<not> validFrame s (poses s)"
  shows "draw_handRaiser s = Inr s"
proof -
  from assms(1) obtain ps where ps: "poses s = Some ps" by blast
  show ?thesis
    using assms(2)
    by (auto simp: draw_handRaiser_def ebind_def js_length_def ps keypointOf_getKeypoint [OF ps]
          validFrame_def confident_def split: option.splits)
qed

lemma draw_handRaiser_total:
  assumes "poses s \<noteq> None"
  shows "\<exists>s'. draw_handRaiser s = Inr s' \<and> poses s' = poses s \<and>
          (crossCount s' = crossCount s \<or> crossCount s' = crossCount s + 1)"
proof -
  from assms(1) obtain ps where ps: "poses s = Some ps" by blast
  show ?thesis
    by (auto simp: draw_handRaiser_def ebind_def js_length_def ps keypointOf_getKeypoint [OF ps]
          checkThresholdCross_step split: option.splits)
qed

lemma step_handRaiser_total:
  assumes "poses s \<noteq> None"
  shows "\<exists>s'. step_handRaiser e s = Inr s' \<and> poses s' \<noteq> None \<and>
          (crossCount s' = crossCount s \<or> crossCount s' = crossCount s + 1)"
proof (cases e)
  case (Detected results)
  then show ?thesis by (simp add: poses_gotPoses_handRaiser)
next
  case Draw
  with draw_handRaiser_total [OF assms] assms show ?thesis by auto
next
  case (MouseClicked mx my)
  with assms show ?thesis by simp
next
  case (KeyPressed k code)
  with assms show ?thesis by (simp add: keyPressed_handRaiser_def)
qed

lemma run_handRaiser_total:
  "poses s \<noteq> None \<Longrightarrow>
   \<exists>s'. run step_handRaiser es s = Inr s' \<and> poses s' \<noteq> None \<and> crossCount s \<le> crossCount s'"
proof (induction es arbitrary: s)
  case Nil
  then show ?case by simp
next
  case (Cons e es)
  from step_handRaiser_total [OF Cons.prems, of e] obtain s1 where
    s1: "step_handRaiser e s = Inr s1" "poses s1 \<noteq> None" "crossCount s \<le> crossCount s1"
    by auto
  from Cons.IH [OF s1(2)] obtain s' where
    "run step_handRaiser es s1 = Inr s'" "poses s' \<noteq> None" "crossCount s1 \<le> crossCount s'"
    by blast
  with s1 show ?case by auto
qed

lemma poses_handRaiser_init: "poses handRaiser_init \<noteq> None"
  by (simp add: handRaiser_init_def)

text \<open>
  Claim C2. A frame with missing data changes nothing of the threshold state. When
  the threshold point or the tracking point is absent, or has a confidence of at
  most \<open>confidenceThreshold\<close>, \<open>draw\<close> returns the state as it was; so a frame that
  delivers such a result leaves \<open>lastAboveThreshold\<close> and \<open>crossCount\<close> as they were.
  After the frames (valid and above, point absent, valid and above) the flag is
  still \<open>true\<close> from the first frame, and the third frame does not count again.
\<close>

theorem missing_data_is_noop:
  "(\<forall>s. poses s \<noteq> None \<and>
        (keypointOf (poses s) (thresholdIndex s) = None \<or>
         keypointOf (poses s) (trackingIndex s) = None \<or>
         (\<exists>k. keypointOf (poses s) (thresholdIndex s) = Some k \<and>
              confidence k \<le> confidenceThreshold s) \<or>
         (\<exists>k. keypointOf (poses s) (trackingIndex s) = Some k \<and>
              confidence k \<le> confidenceThreshold s)) \<longrightarrow>
        draw_handRaiser s = Inr s) \<and>
   (\<forall>s r. \<not> validFrame s r \<longrightarrow>
      (\<exists>s'. run step_handRaiser (frames [r]) s = Inr s' \<and>
            lastAboveThreshold s' = lastAboveThreshold s \<and> crossCount s' = crossCount s)) \<and>
   (\<forall>s r1 r2 r3.
      validFrame s r1 \<and> isAbove s r1 \<and> \<not> validFrame s r2 \<and> validFrame s r3 \<and> isAbove s r3 \<longrightarrow>
      (\<exists>s1 s2 s3.
         run step_handRaiser (frames [r1]) s = Inr s1 \<and>
         run step_handRaiser (frames [r1, r2]) s = Inr s2 \<and>
         run step_handRaiser (frames [r1, r2, r3]) s = Inr s3 \<and>
         lastAboveThreshold s1 \<and> lastAboveThreshold s2 \<and> lastAboveThreshold s3 \<and>
         crossCount s2 = crossCount s1 \<and> crossCount s3 = crossCount s2))"
proof (intro conjI allI impI)
  fix s :: handRaiser_state
  assume "poses s \<noteq> None \<and>
        (keypointOf (poses s) (thresholdIndex s) = None \<or>
         keypointOf (poses s) (trackingIndex s) = None \<or>
         (\<exists>k. keypointOf (poses s) (thresholdIndex s) = Some k \<and>
              confidence k \<le> confidenceThreshold s) \<or>
         (\<exists>k. keypointOf (poses s) (trackingIndex s) = Some k \<and>
              confidence k \<le> confidenceThreshold s))"
  then have "poses s \<noteq> None" "\<not> validFrame s (poses s)"
    by (simp_all add: not_validFrame_iff)
  then show "draw_handRaiser s = Inr s"
    by (rule draw_handRaiser_invalid)
next
  fix s :: handRaiser_state and r
  assume "\<not> validFrame s r"
  then show "\<exists>s'. run step_handRaiser (frames [r]) s = Inr s' \<and>
            lastAboveThreshold s' = lastAboveThreshold s \<and> crossCount s' = crossCount s"
    by (simp add: frame_handRaiser)
next
  fix s :: handRaiser_state and r1 r2 r3
  assume a: "validFrame s r1 \<and> isAbove s r1 \<and> \<not> validFrame s r2 \<and> validFrame s r3 \<and> isAbove s r3"
  define s1 where "s1 = (gotPoses_handRaiser r1 s)
                 \<lparr>crossCount := crossCount s + (if isAbove s r1 \<and> \<not> lastAboveThreshold s then 1 else 0),
                  lastAboveThreshold := isAbove s r1\<rparr>"
  have f1: "run step_handRaiser (frames [r1]) s = Inr s1"
    using a by (simp add: frame_handRaiser s1_def)
  have same1: "validFrame s1 = validFrame s" "isAbove s1 = isAbove s"
    using validFrame_cong [of s1 s] by (simp_all add: s1_def)
  define s2 where "s2 = gotPoses_handRaiser r2 s1"
  have f2: "run step_handRaiser (frames [r2]) s1 = Inr s2"
    using a by (simp add: frame_handRaiser same1 s2_def)
  have same2: "validFrame s2 = validFrame s" "isAbove s2 = isAbove s"
    using validFrame_cong [of s2 s] by (simp_all add: s2_def s1_def)
  define s3 where "s3 = (gotPoses_handRaiser r3 s2)
                 \<lparr>crossCount := crossCount s2 + (if isAbove s2 r3 \<and> \<not> lastAboveThreshold s2 then 1 else 0),
                  lastAboveThreshold := isAbove s2 r3\<rparr>"
  have f3: "run step_handRaiser (frames [r3]) s2 = Inr s3"
    using a by (simp add: frame_handRaiser same2 s3_def)
  have r12: "run step_handRaiser (frames [r1, r2]) s = Inr s2"
    by (subst frames_Cons) (simp add: run_append f1 f2 ebind_def)
  have r23: "run step_handRaiser (frames [r2, r3]) s1 = Inr s3"
    by (subst frames_Cons) (simp add: run_append f2 f3 ebind_def)
  have r123: "run step_handRaiser (frames [r1, r2, r3]) s = Inr s3"
    by (subst frames_Cons) (simp add: run_append f1 r23 ebind_def)
  have l1: "lastAboveThreshold s1"
    using a by (simp add: s1_def)
  have l2: "lastAboveThreshold s2" "crossCount s2 = crossCount s1"
    using l1 by (simp_all add: s2_def)
  have above3: "isAbove s2 r3"
    using a by (simp add: same2)
  have l3: "lastAboveThreshold s3" "crossCount s3 = crossCount s2"
    using above3 l2(1) by (simp_all add: s3_def)
  from f1 r12 r123 l1 l2 l3 show "\<exists>s1 s2 s3.
         run step_handRaiser (frames [r1]) s = Inr s1 \<and>
         run step_handRaiser (frames [r1, r2]) s = Inr s2 \<and>
         run step_handRaiser (frames [r1, r2, r3]) s = Inr s3 \<and>
         lastAboveThreshold s1 \<and> lastAboveThreshold s2 \<and> lastAboveThreshold s3 \<and>
         crossCount s2 = crossCount s1 \<and> crossCount s3 = crossCount s2"
    by blast
qed

theorem missing_data_is_noop_witness:
  "draw_handRaiser (handRaiser_init\<lparr>poses := Some []\<rparr>) = Inr (handRaiser_init\<lparr>poses := Some []\<rparr>) \<and>
   (\<exists>s'. run step_handRaiser (frames [sampleFrame 100 50 0.1]) handRaiser_init = Inr s' \<and>
         lastAboveThreshold s' = False \<and> crossCount s' = 0) \<and>
   (\<exists>s1 s2 s3.
      run step_handRaiser (frames [sampleFrame 100 50 0.9]) handRaiser_init = Inr s1 \<and>
      run step_handRaiser (frames [sampleFrame 100 50 0.9, None]) handRaiser_init = Inr s2 \<and>
      run step_handRaiser (frames [sampleFrame 100 50 0.9, None, sampleFrame 100 60 0.9])
        handRaiser_init = Inr s3 \<and>
      lastAboveThreshold s3 \<and> crossCount s2 = crossCount s1 \<and> crossCount s3 = crossCount s2)"
proof (intro conjI)
  let ?e = "handRaiser_init\<lparr>poses := Some []\<rparr>"
  have "poses ?e \<noteq> None \<and>
        (keypointOf (poses ?e) (thresholdIndex ?e) = None \<or>
         keypointOf (poses ?e) (trackingIndex ?e) = None \<or>
         (\<exists>k. keypointOf (poses ?e) (thresholdIndex ?e) = Some k \<and>
              confidence k \<le> confidenceThreshold ?e) \<or>
         (\<exists>k. keypointOf (poses ?e) (trackingIndex ?e) = Some k \<and>
              confidence k \<le> confidenceThreshold ?e))"
    by simp
  with missing_data_is_noop [THEN conjunct1, THEN spec, of ?e]
  show "draw_handRaiser ?e = Inr ?e"
    by (rule mp)
next
  have "\<not> validFrame handRaiser_init (sampleFrame 100 50 0.1)"
    by (simp add: sampleFrame_valid)
  with missing_data_is_noop [THEN conjunct2, THEN conjunct1, THEN spec, THEN spec,
      of handRaiser_init "sampleFrame 100 50 0.1"]
  show "\<exists>s'. run step_handRaiser (frames [sampleFrame 100 50 0.1]) handRaiser_init = Inr s' \<and>
         lastAboveThreshold s' = False \<and> crossCount s' = 0"
    by (simp add: handRaiser_init_def)
next
  have "validFrame handRaiser_init (sampleFrame 100 50 0.9) \<and>
        isAbove handRaiser_init (sampleFrame 100 50 0.9) \<and>
        \<not> validFrame handRaiser_init None \<and>
        validFrame handRaiser_init (sampleFrame 100 60 0.9) \<and>
        isAbove handRaiser_init (sampleFrame 100 60 0.9)"
    by (simp add: sampleFrame_valid) (simp add: validFrame_def confident_def)
  with missing_data_is_noop [THEN conjunct2, THEN conjunct2, THEN spec, THEN spec, THEN spec,
      THEN spec, of handRaiser_init "sampleFrame 100 50 0.9" None "sampleFrame 100 60 0.9"]
  show "\<exists>s1 s2 s3.
      run step_handRaiser (frames [sampleFrame 100 50 0.9]) handRaiser_init = Inr s1 \<and>
      run step_handRaiser (frames [sampleFrame 100 50 0.9, None]) handRaiser_init = Inr s2 \<and>
      run step_handRaiser (frames [sampleFrame 100 50 0.9, None, sampleFrame 100 60 0.9])
        handRaiser_init = Inr s3 \<and>
      lastAboveThreshold s3 \<and> crossCount s2 = crossCount s1 \<and> crossCount s3 = crossCount s2"
    by blast
qed

text \<open>
  Claim C9. From the start of the sketch (\<open>crossCount = 0\<close>), after any sequence of
  events \<open>crossCount\<close> is not negative, it never decreases from one moment of a run
  to a later one, and every single event leaves it as it is or adds one.
\<close>

theorem crossCount_monotone:
  "(\<forall>es. \<exists>s. run step_handRaiser es handRaiser_init = Inr s \<and> 0 \<le> crossCount s) \<and>
   (\<forall>es1 es2. \<exists>s1 s2.
      run step_handRaiser es1 handRaiser_init = Inr s1 \<and>
      run step_handRaiser (es1 @ es2) handRaiser_init = Inr s2 \<and>
      crossCount s1 \<le> crossCount s2) \<and>
   (\<forall>es e. \<exists>s1 s2.
      run step_handRaiser es handRaiser_init = Inr s1 \<and>
      run step_handRaiser (es @ [e]) handRaiser_init = Inr s2 \<and>
      (crossCount s2 = crossCount s1 \<or> crossCount s2 = crossCount s1 + 1))"
proof (intro conjI allI)
  fix es
  from run_handRaiser_total [OF poses_handRaiser_init, of es]
  show "\<exists>s. run step_handRaiser es handRaiser_init = Inr s \<and> 0 \<le> crossCount s"
    by (auto simp: handRaiser_init_def)
next
  fix es1 es2
  from run_handRaiser_total [OF poses_handRaiser_init, of es1] obtain s1 where
    s1: "run step_handRaiser es1 handRaiser_init = Inr s1" "poses s1 \<noteq> None"
    by blast
  from run_handRaiser_total [OF s1(2), of es2] obtain s2 where
    s2: "run step_handRaiser es2 s1 = Inr s2" "crossCount s1 \<le> crossCount s2"
    by blast
  have "run step_handRaiser (es1 @ es2) handRaiser_init = Inr s2"
    by (simp add: run_append s1(1) s2(1) ebind_def)
  with s1 s2 show "\<exists>s1 s2.
      run step_handRaiser es1 handRaiser_init = Inr s1 \<and>
      run step_handRaiser (es1 @ es2) handRaiser_init = Inr s2 \<and>
      crossCount s1 \<le> crossCount s2"
    by blast
next
  fix es e
  from run_handRaiser_total [OF poses_handRaiser_init, of es] obtain s1 where
    s1: "run step_handRaiser es handRaiser_init = Inr s1" "poses s1 \<noteq> None"
    by blast
  from step_handRaiser_total [OF s1(2), of e] obtain s2 where
    s2: "step_handRaiser e s1 = Inr s2"
      "crossCount s2 = crossCount s1 \<or> crossCount s2 = crossCount s1 + 1"
    by blast
  have "run step_handRaiser (es @ [e]) handRaiser_init = Inr s2"
    by (simp add: run_append s1(1) s2(1) ebind_def)
  with s1 s2 show "\<exists>s1 s2.
      run step_handRaiser es handRaiser_init = Inr s1 \<and>
      run step_handRaiser (es @ [e]) handRaiser_init = Inr s2 \<and>
      (crossCount s2 = crossCount s1 \<or> crossCount s2 = crossCount s1 + 1)"
    by blast
qed

section \<open>Properties of the detection callbacks\<close>

lemma poses_gotPoses_fixedPoint:
  "poses (gotPoses_fixedPoint results s) = Some (case results of None \<Rightarrow> [] | Some r \<Rightarrow> r)"
  by (simp add: gotPoses_fixedPoint_def Let_def)

lemma poses_always_list:
  "poses (gotPoses_handRaiser results s) \<noteq> None"
  "poses (gotPoses_fixedPoint results t) \<noteq> None"
  "poses (gotPoses_handRaiser None s) = Some []"
  "poses (gotPoses_fixedPoint None t) = Some []"
  by (simp_all add: gotPoses_handRaiser_def gotPoses_fixedPoint_def Let_def split: option.splits)


lemma draw_fixedPoint_total:
  assumes "poses s \<noteq> None"
  shows "draw_fixedPoint s = Inr s"
proof -
  from assms obtain ps where ps: "poses s = Some ps" by blast
  show ?thesis
    by (auto simp: draw_fixedPoint_def drawMeasures_def ebind_def js_length_def ps Let_def
          getKeypoint_Some [OF ps] split: option.splits sum.splits)
qed




section \<open>Properties of the centroid\<close>

lemma boundingBoxes_gotPoses_fixedPoint:
  "boundingBoxes (gotPoses_fixedPoint results s) =
     map Some (List.map_filter box (case results of None \<Rightarrow> [] | Some r \<Rightarrow> r))"
  by (simp add: gotPoses_fixedPoint_def Let_def map_filter_def filter_map comp_def)

lemma centroid_gotPoses_fixedPoint:
  "centroid (gotPoses_fixedPoint results s) =
     (case List.map_filter box (case results of None \<Rightarrow> [] | Some r \<Rightarrow> r) of
        [] \<Rightarrow> \<lparr>x = 0, y = 0\<rparr>
      | b # _ \<Rightarrow> \<lparr>x = (xMin b + xMax b) / 2, y = (yMin b + yMax b) / 2\<rparr>)"
proof -
  have "filter (\<lambda>b. b \<noteq> None) (map box ps) = map Some (List.map_filter box ps)" for ps :: "detection list"
    by (simp add: map_filter_def filter_map comp_def)
  then show ?thesis
    by (simp add: gotPoses_fixedPoint_def Let_def js_index_def split: list.splits)
qed

lemma map_filter_all_None:
  "(\<forall>d\<in>set ps. f d = None) \<Longrightarrow> List.map_filter f ps = []"
  by (induction ps) simp_all

text \<open>
  Claim C6. After \<open>gotPoses\<close>, when the result has a bounding box, the stored
  centroid is the centre \<open>((xMin + xMax) / 2, (yMin + yMax) / 2)\<close> of the first one,
  that is of the first box that is there, in the order of the detections (the
  sketch's \<open>boundingBoxes[0]\<close>); this is the box of the first detection when that
  detection has one. When the model delivers nothing, no detection, or only
  detections without a box, the stored centroid is \<open>(0, 0)\<close>.
\<close>

theorem centroid_of_first_box:
  "(\<forall>ps b rest. results = Some ps \<and> List.map_filter box ps = b # rest \<longrightarrow>
      centroid (gotPoses_fixedPoint results s) =
        \<lparr>x = (xMin b + xMax b) / 2, y = (yMin b + yMax b) / 2\<rparr>) \<and>
   (\<forall>pose ps b. results = Some (pose # ps) \<and> box pose = Some b \<longrightarrow>
      centroid (gotPoses_fixedPoint results s) =
        \<lparr>x = (xMin b + xMax b) / 2, y = (yMin b + yMax b) / 2\<rparr>) \<and>
   (results = None \<or> results = Some [] \<or>
    (\<exists>ps. results = Some ps \<and> (\<forall>pose\<in>set ps. box pose = None)) \<longrightarrow>
      centroid (gotPoses_fixedPoint results s) = \<lparr>x = 0, y = 0\<rparr>)"
proof (intro conjI allI impI)
  fix ps b rest
  assume "results = Some ps \<and> List.map_filter box ps = b # rest"
  then show "centroid (gotPoses_fixedPoint results s) =
        \<lparr>x = (xMin b + xMax b) / 2, y = (yMin b + yMax b) / 2\<rparr>"
    by (simp add: centroid_gotPoses_fixedPoint)
next
  fix pose ps b
  assume "results = Some (pose # ps) \<and> box pose = Some b"
  then show "centroid (gotPoses_fixedPoint results s) =
        \<lparr>x = (xMin b + xMax b) / 2, y = (yMin b + yMax b) / 2\<rparr>"
    by (simp add: centroid_gotPoses_fixedPoint)
next
  assume "results = None \<or> results = Some [] \<or>
    (\<exists>ps. results = Some ps \<and> (\<forall>pose\<in>set ps. box pose = None))"
  then show "centroid (gotPoses_fixedPoint results s) = \<lparr>x = 0, y = 0\<rparr>"
    by (auto simp: centroid_gotPoses_fixedPoint map_filter_all_None)
qed

theorem centroid_of_first_box_witness:
  "centroid (gotPoses_fixedPoint
      (Some [\<lparr>keypoints = None, box = None\<rparr>, \<lparr>keypoints = None, box = Some sampleBox\<rparr>])
      fixedPoint_init) = \<lparr>x = 200, y = 250\<rparr> \<and>
   centroid (gotPoses_fixedPoint (Some [\<lparr>keypoints = None, box = Some sampleBox\<rparr>]) fixedPoint_init) =
     \<lparr>x = 200, y = 250\<rparr> \<and>
   centroid (gotPoses_fixedPoint None (fixedPoint_init\<lparr>centroid := \<lparr>x = 200, y = 250\<rparr>\<rparr>)) =
     \<lparr>x = 0, y = 0\<rparr> \<and>
   centroid (gotPoses_fixedPoint (Some [\<lparr>keypoints = None, box = None\<rparr>])
      (fixedPoint_init\<lparr>centroid := \<lparr>x = 200, y = 250\<rparr>\<rparr>)) = \<lparr>x = 0, y = 0\<rparr>"
proof (intro conjI)
  let ?r = "Some [\<lparr>keypoints = None, box = None\<rparr>, \<lparr>keypoints = None, box = Some sampleBox\<rparr>]"
  have "?r = Some [\<lparr>keypoints = None, box = None\<rparr>, \<lparr>keypoints = None, box = Some sampleBox\<rparr>] \<and>
        List.map_filter box [\<lparr>keypoints = None, box = None\<rparr>, \<lparr>keypoints = None, box = Some sampleBox\<rparr>] =
          sampleBox # []"
    by simp
  from centroid_of_first_box [of ?r fixedPoint_init, THEN conjunct1, THEN spec, THEN spec, THEN spec,
      THEN mp, OF this]
  show "centroid (gotPoses_fixedPoint ?r fixedPoint_init) = \<lparr>x = 200, y = 250\<rparr>"
    by (simp add: sampleBox_def)
next
  let ?r = "Some [\<lparr>keypoints = None, box = Some sampleBox\<rparr>]"
  have "?r = Some (\<lparr>keypoints = None, box = Some sampleBox\<rparr> # []) \<and>
        box \<lparr>keypoints = None, box = Some sampleBox\<rparr> = Some sampleBox"
    by simp
  from centroid_of_first_box [of ?r fixedPoint_init, THEN conjunct2, THEN conjunct1,
      THEN spec, THEN spec, THEN spec, THEN mp, OF this]
  show "centroid (gotPoses_fixedPoint ?r fixedPoint_init) = \<lparr>x = 200, y = 250\<rparr>"
    by (simp add: sampleBox_def)
next
  show "centroid (gotPoses_fixedPoint None (fixedPoint_init\<lparr>centroid := \<lparr>x = 200, y = 250\<rparr>\<rparr>)) =
     \<lparr>x = 0, y = 0\<rparr>"
    by (rule centroid_of_first_box [THEN conjunct2, THEN conjunct2, THEN mp]) simp
next
  show "centroid (gotPoses_fixedPoint (Some [\<lparr>keypoints = None, box = None\<rparr>])
      (fixedPoint_init\<lparr>centroid := \<lparr>x = 200, y = 250\<rparr>\<rparr>)) = \<lparr>x = 0, y = 0\<rparr>"
    by (rule centroid_of_first_box [THEN conjunct2, THEN conjunct2, THEN mp]) simp
qed

section \<open>Properties of the measurements\<close>

text \<open>
  Claim C7. For two points that are there, \<open>measureDistance\<close> returns the Euclidean
  distance \<open>sqrt ((b.x - a.x)\<^sup>2 + (b.y - a.y)\<^sup>2)\<close>; when either point is \<open>null\<close> it
  returns \<open>null\<close>.
\<close>

theorem measureDistance_euclidean:
  "measureDistance (Some a) (Some b) = Some (sqrt ((x b - x a)\<^sup>2 + (y b - y a)\<^sup>2)) \<and>
   measureDistance None q = None \<and>
   measureDistance p None = None"
  by (simp add: measureDistance_def Let_def power2_eq_square split: option.splits)

lemma measureDistance_sym:
  "measureDistance (Some a) (Some b) = measureDistance (Some b) (Some a)"
  by (simp add: measureDistance_def Let_def power2_eq_square [symmetric] power2_commute)

lemma measureDistance_self: "measureDistance (Some p) (Some p) = Some 0"
  by (simp add: measureDistance_def Let_def)

text \<open>
  \<open>Math_atan2 b a\<close> is the polar angle of the point \<open>(a, b)\<close>, in \<open>(-\<pi>, \<pi>]\<close>.
\<close>

lemma sqrt_sum_squares_factor:
  assumes "a \<noteq> 0"
  shows "sqrt (a\<^sup>2 + b\<^sup>2) = \<bar>a\<bar> * sqrt (1 + (b / a)\<^sup>2)"
proof -
  have "a\<^sup>2 + b\<^sup>2 = a\<^sup>2 * (1 + (b / a)\<^sup>2)"
    using assms by (simp add: field_simps power2_eq_square)
  then show ?thesis
    by (simp add: real_sqrt_mult)
qed

lemma Math_atan2_polar:
  "sqrt (a\<^sup>2 + b\<^sup>2) * cos (Math_atan2 b a) = a \<and>
   sqrt (a\<^sup>2 + b\<^sup>2) * sin (Math_atan2 b a) = b"
proof -
  have pos: "0 < sqrt (1 + (b / a)\<^sup>2)"
    by (simp add: add_pos_nonneg)
  consider "a > 0" | "a < 0" | "a = 0"
    by linarith
  then show ?thesis
  proof cases
    case 1
    then show ?thesis
      using pos by (simp add: Math_atan2_def sqrt_sum_squares_factor cos_arctan sin_arctan)
  next
    case 2
    then show ?thesis
      using pos by (simp add: Math_atan2_def sqrt_sum_squares_factor cos_arctan sin_arctan)
  next
    case 3
    then show ?thesis
      by (simp add: Math_atan2_def)
  qed
qed

lemma Math_atan2_origin: "Math_atan2 0 0 = 0"
  by (simp add: Math_atan2_def)

lemma Math_atan2_range: "- pi < Math_atan2 b a \<and> Math_atan2 b a \<le> pi"
proof -
  have 1: "- (pi / 2) < arctan (b / a)" "arctan (b / a) < pi / 2"
    by (rule arctan_lbound, rule arctan_ubound)
  have 2: "a < 0 \<Longrightarrow> 0 \<le> b \<Longrightarrow> arctan (b / a) \<le> 0"
    by (simp add: divide_le_0_iff)
  have 3: "a < 0 \<Longrightarrow> b < 0 \<Longrightarrow> 0 < arctan (b / a)"
    by (simp add: zero_less_divide_iff)
  have "0 < pi" by simp
  with 1 2 3 show ?thesis
    unfolding Math_atan2_def by (auto simp: not_less)
qed

text \<open>
  Claim C5. For two points that are there, \<open>measureAngle\<close> returns
  \<open>atan2(end.y - base.y, end.x - base.x)\<close> in degrees, plus \<open>360\<close> when that number is
  negative; and the angle from a point to itself is \<open>0\<close>.
\<close>

theorem measureAngle_definition:
  "measureAngle (Some bp) (Some ep) =
     Some (if Math_atan2 (y ep - y bp) (x ep - x bp) * 180 / pi < 0
           then Math_atan2 (y ep - y bp) (x ep - x bp) * 180 / pi + 360
           else Math_atan2 (y ep - y bp) (x ep - x bp) * 180 / pi) \<and>
   measureAngle (Some p) (Some p) = Some 0"
  by (simp add: measureAngle_def Let_def Math_atan2_origin)

text \<open>
  With every operation exact, on the reals, the angle lies in \<open>[0, 360)\<close>.
\<close>

lemma measureAngle_real_range:
  assumes "measureAngle (Some bp) (Some ep) = Some angle"
  shows "0 \<le> angle \<and> angle < 360"
proof -
  define t where "t = Math_atan2 (y ep - y bp) (x ep - x bp)"
  have t: "- pi < t" "t \<le> pi"
    using Math_atan2_range [of "y ep - y bp" "x ep - x bp"] by (simp_all add: t_def)
  have pos: "0 < pi" by simp
  have d: "- 180 < t * 180 / pi" "t * 180 / pi \<le> 180"
    using t pos by (simp_all add: field_simps)
  from assms have "angle = (if t * 180 / pi < 0 then t * 180 / pi + 360 else t * 180 / pi)"
    by (auto simp: measureAngle_def Let_def t_def)
  with d show ?thesis
    by (auto split: if_splits)
qed

subsection \<open>The angle with the rounded addition\<close>

lemma roundHalfEven_le: "q \<le> of_int n \<Longrightarrow> roundHalfEven q \<le> n"
proof -
  assume a: "q \<le> of_int n"
  show ?thesis
  proof (cases "q = of_int n")
    case True
    then show ?thesis by (simp add: roundHalfEven_def)
  next
    case False
    with a have "q < of_int n" by simp
    then have "\<lfloor>q\<rfloor> < n" by (simp add: floor_less_iff)
    then show ?thesis by (auto simp: roundHalfEven_def Let_def)
  qed
qed

lemma roundHalfEven_ge: "of_int n \<le> q \<Longrightarrow> n \<le> roundHalfEven q"
proof -
  assume "of_int n \<le> q"
  then have "n \<le> \<lfloor>q\<rfloor>" by (simp add: le_floor_iff)
  then show ?thesis by (auto simp: roundHalfEven_def Let_def)
qed

lemma floor_log2:
  assumes "2 ^ k \<le> r" "r < 2 ^ Suc k"
  shows "\<lfloor>log 2 r\<rfloor> = int k"
proof -
  have pos: "0 < r" using assms(1) by (smt (verit) zero_less_power)
  have 1: "real k \<le> log 2 r"
    using assms(1) pos by (simp add: le_log_iff powr_realpow)
  have 2: "log 2 r < real k + 1"
    using assms(2) pos by (simp add: log_less_iff powr_realpow powr_add)
  from 1 2 pos show ?thesis
    by (simp add: floor_eq_iff)
qed

lemma binary64_binade:
  assumes "2 ^ k \<le> r" "r < 2 ^ Suc k" "k \<le> 52"
  shows "binary64 r = of_int (roundHalfEven (r * 2 ^ (52 - k))) / 2 ^ (52 - k)"
proof -
  have pos: "0 < r" using assms(1) by (smt (verit) zero_less_power)
  have "2 powr (real_of_int (int k) - 52) = 2 powr (- real (52 - k))"
    using assms(3) by simp
  also have "\<dots> = 1 / 2 ^ (52 - k)"
    by (simp add: powr_minus powr_realpow divide_simps)
  finally have u: "2 powr (real_of_int (int k) - 52) = 1 / 2 ^ (52 - k)" .
  have e: "\<lfloor>log 2 \<bar>r\<bar>\<rfloor> = int k"
    using pos floor_log2 [OF assms(1,2)] by simp
  have "binary64 r = of_int (roundHalfEven (r / (1 / 2 ^ (52 - k)))) * (1 / 2 ^ (52 - k))"
    using pos unfolding binary64_def e Let_def u by simp
  then show ?thesis
    by simp
qed

lemma roundHalfEven_just_below:
  assumes "even n" "- (1 / 2) \<le> d" "d < 0"
  shows "roundHalfEven (of_int n + d) = n"
proof -
  have fl: "\<lfloor>of_int n + d\<rfloor> = n - 1"
    using assms(2,3) by (simp add: floor_eq_iff)
  have odd: "odd (n - 1)"
    using assms(1) by simp
  have frac: "of_int n + d - of_int (n - 1) = 1 + d"
    by simp
  show ?thesis
    unfolding roundHalfEven_def fl Let_def frac using assms(2,3) odd by auto
qed

lemma binary64_near_360:
  assumes "- (1 / 2 ^ 45) \<le> a" "a < 0"
  shows "binary64 (a + 360) = 360"
proof -
  let ?r = "a + 360"
  have small: "(1::real) / 2 ^ 45 < 1" by simp
  have lo: "(2::real) ^ 8 \<le> ?r" using assms(1) small by simp
  have hi: "?r < 2 ^ Suc 8" using assms(2) by simp
  have b: "binary64 ?r = of_int (roundHalfEven (?r * 2 ^ 44)) / 2 ^ 44"
    using binary64_binade [OF lo hi] by simp
  define n :: int where "n = 360 * 2 ^ 44"
  define d where "d = a * 2 ^ 44"
  have q: "?r * 2 ^ 44 = of_int n + d"
    by (simp add: n_def d_def algebra_simps)
  have d: "- (1 / 2) \<le> d" "d < 0"
    using assms by (simp_all add: d_def field_simps)
  have "even n"
    by (simp add: n_def)
  from roundHalfEven_just_below [OF this d] have "roundHalfEven (?r * 2 ^ 44) = n"
    by (simp only: q)
  then show ?thesis
    unfolding b by (simp add: n_def)
qed

lemma binary64_bounds:
  assumes "180 \<le> r" "r < 360"
  shows "0 \<le> binary64 r \<and> binary64 r \<le> 360"
proof (cases "r < 256")
  case True
  have lo: "(2::real) ^ 7 \<le> r" using assms(1) by simp
  have hi: "r < 2 ^ Suc 7" using True by simp
  have b: "binary64 r = of_int (roundHalfEven (r * 2 ^ 45)) / 2 ^ 45"
    using binary64_binade [OF lo hi] by simp
  have "r * 2 ^ 45 \<le> of_int (256 * 2 ^ 45)"
    using True by simp
  then have up: "roundHalfEven (r * 2 ^ 45) \<le> 256 * 2 ^ 45"
    by (rule roundHalfEven_le)
  have "of_int 0 \<le> r * 2 ^ 45"
    using assms(1) by simp
  then have dn: "0 \<le> roundHalfEven (r * 2 ^ 45)"
    by (rule roundHalfEven_ge)
  have "real_of_int (roundHalfEven (r * 2 ^ 45)) \<le> real_of_int (256 * 2 ^ 45)"
    using up by (simp only: of_int_le_iff)
  then have "binary64 r \<le> 256"
    unfolding b by (simp add: field_simps)
  moreover have "0 \<le> binary64 r"
    unfolding b using dn by simp
  ultimately show ?thesis by simp
next
  case False
  have lo: "(2::real) ^ 8 \<le> r" using False by simp
  have hi: "r < 2 ^ Suc 8" using assms(2) by simp
  have b: "binary64 r = of_int (roundHalfEven (r * 2 ^ 44)) / 2 ^ 44"
    using binary64_binade [OF lo hi] by simp
  have "r * 2 ^ 44 \<le> of_int (360 * 2 ^ 44)"
    using assms(2) by simp
  then have up: "roundHalfEven (r * 2 ^ 44) \<le> 360 * 2 ^ 44"
    by (rule roundHalfEven_le)
  have "of_int 0 \<le> r * 2 ^ 44"
    using assms(1) by simp
  then have dn: "0 \<le> roundHalfEven (r * 2 ^ 44)"
    by (rule roundHalfEven_ge)
  have "real_of_int (roundHalfEven (r * 2 ^ 44)) \<le> real_of_int (360 * 2 ^ 44)"
    using up by (simp only: of_int_le_iff)
  then have "binary64 r \<le> 360"
    unfolding b by (simp add: field_simps)
  moreover have "0 \<le> binary64 r"
    unfolding b using dn by simp
  ultimately show ?thesis by simp
qed


lemma arctan_le_arg:
  assumes "0 \<le> t"
  shows "arctan t \<le> t"
proof -
  have "(\<lambda>u. u - arctan u) 0 \<le> (\<lambda>u. u - arctan u) t"
  proof (rule DERIV_nonneg_imp_nondecreasing [OF assms])
    fix u :: real
    have "DERIV (\<lambda>u. u - arctan u) u :> 1 - inverse (1 + u\<^sup>2)"
      by (auto intro!: derivative_eq_intros)
    moreover have "inverse (1 + u\<^sup>2) \<le> 1"
      by (simp add: inverse_le_1_iff)
    ultimately show "\<exists>d. DERIV (\<lambda>u. u - arctan u) u :> d \<and> 0 \<le> d"
      by (intro exI [of _ "1 - inverse (1 + u\<^sup>2)"]) simp
  qed
  then show ?thesis
    by simp
qed

lemma arctan_small:
  assumes "0 < t"
  shows "- t \<le> arctan (- t) \<and> arctan (- t) < 0"
  using assms arctan_le_arg [of t] by (simp add: arctan_minus)

lemma roundHalfEven_of_int: "roundHalfEven (of_int n) = n"
  by (simp add: roundHalfEven_def)

lemma binary64_360: "binary64 360 = 360"
proof -
  have "binary64 360 = of_int (roundHalfEven (of_int (360 * 2 ^ 44))) / 2 ^ 44"
    using binary64_binade [of 8 360] by simp
  then show ?thesis
    by (simp only: roundHalfEven_of_int) simp
qed

text \<open>
  Claim C4, as amended. For all points that are there, the number returned by
  \<open>measureAngle\<close> lies in the closed interval \<open>[0, 360]\<close>: it is never negative and
  never greater than \<open>360\<close>, and it is less than \<open>360\<close> unless \<open>atan2\<close> is negative (then
  the rounded sum \<open>angle + 360\<close> can be \<open>360\<close> itself).
\<close>

theorem measureAngle_binary64_range:
  "\<exists>a. measureAngle_binary64 (Some bp) (Some ep) = Some a \<and> 0 \<le> a \<and> a \<le> 360 \<and>
       (a < 360 \<or> Math_atan2 (y ep - y bp) (x ep - x bp) < 0)"
proof -
  define t where "t = Math_atan2 (y ep - y bp) (x ep - x bp)"
  define deg where "deg = t * 180 / pi"
  have t: "- pi < t" "t \<le> pi"
    using Math_atan2_range [of "y ep - y bp" "x ep - x bp"] by (simp_all add: t_def)
  have pos: "0 < pi" by simp
  have d: "- 180 < deg" "deg \<le> 180"
    using t pos by (simp_all add: deg_def field_simps)
  have sgn: "deg < 0 \<longleftrightarrow> t < 0"
    using pos by (simp add: deg_def field_simps zero_less_mult_iff mult_less_0_iff)
  have res: "measureAngle_binary64 (Some bp) (Some ep) =
      Some (if deg < 0 then binary64 (deg + 360) else deg)"
    by (simp add: measureAngle_binary64_def Let_def t_def deg_def)
  show ?thesis
  proof (cases "deg < 0")
    case True
    then have "180 \<le> deg + 360" "deg + 360 < 360"
      using d by simp_all
    from binary64_bounds [OF this] True sgn show ?thesis
      unfolding res t_def by simp
  next
    case False
    with d show ?thesis
      unfolding res by simp
  qed
qed

text \<open>
  The bound \<open>angle < 360\<close> fails: from the centre of the canvas \<open>(320, 240)\<close> to the
  point \<open>(640, 240 - 1 / 2 ^ 45)\<close>, whose \<open>y\<close> is the binary64 number just below
  \<open>240\<close>, the angle in degrees lies between \<open>- 1 / 2 ^ 45\<close> and \<open>0\<close>, and the sum
  \<open>angle + 360\<close> rounds to \<open>360\<close>.
\<close>

theorem measureAngle_binary64_reaches_360:
  "measureAngle_binary64 (Some \<lparr>x = 320, y = 240\<rparr>) (Some \<lparr>x = 640, y = 240 - 1 / 2 ^ 45\<rparr>) =
     Some 360"
proof -
  define t :: real where "t = (1 / 2 ^ 45) / 320"
  have tpos: "0 < t" by (simp add: t_def)
  have at: "Math_atan2 (- (1 / 2 ^ 45)) 320 = arctan (- t)"
    by (simp add: Math_atan2_def t_def)
  define deg where "deg = arctan (- t) * 180 / pi"
  have pi3: "2 \<le> pi" by (rule pi_ge_two)
  have a: "- t \<le> arctan (- t)" "arctan (- t) < 0"
    using arctan_small [OF tpos] by simp_all
  have neg: "deg < 0"
    using a(2) pi3 by (simp add: deg_def field_simps mult_less_0_iff)
  have "(- t) * 180 / pi \<le> arctan (- t) * 180 / pi"
    using a(1) by (intro divide_right_mono mult_right_mono) simp_all
  then have "- (t * 180 / pi) \<le> deg"
    by (simp add: deg_def)
  moreover have "t * 180 / pi \<le> t * 180 / 2"
    using tpos pi3 by (intro divide_left_mono) simp_all
  moreover have "t * 180 / 2 \<le> 1 / 2 ^ 45"
    by (simp add: t_def)
  ultimately have lo: "- (1 / 2 ^ 45) \<le> deg"
    by linarith
  have "measureAngle_binary64 (Some \<lparr>x = 320, y = 240\<rparr>) (Some \<lparr>x = 640, y = 240 - 1 / 2 ^ 45\<rparr>) =
      Some (if deg < 0 then binary64 (deg + 360) else deg)"
    unfolding measureAngle_binary64_def Let_def deg_def at [symmetric] by simp
  with neg binary64_near_360 [OF lo neg] show ?thesis
    by simp
qed

section \<open>Properties of the tracked index\<close>

lemma js_rem_nonneg: "0 \<le> a \<Longrightarrow> js_rem a b = a mod \<bar>b\<bar>"
  by (cases "a = 0") (simp_all add: js_rem_def)

lemma keyPressed_fixedPoint_index:
  "bodyPointIndex (keyPressed_fixedPoint k code s) =
     (if code = LEFT_ARROW then js_rem (bodyPointIndex s - 1 + 17) 17
      else if code = RIGHT_ARROW then js_rem (bodyPointIndex s + 1) 17
      else bodyPointIndex s)"
  by (simp add: keyPressed_fixedPoint_def Let_def LEFT_ARROW_def RIGHT_ARROW_def)

lemma wrap_left:
  assumes "0 \<le> i" "i \<le> 16"
  shows "js_rem (i - 1 + 17) 17 = (if i = 0 then 16 else i - 1)"
proof -
  have "(i - 1 + 17) mod 17 = (if i = 0 then 16 else i - 1)"
    using assms by presburger
  with assms show ?thesis
    by (simp add: js_rem_nonneg)
qed

lemma wrap_right:
  assumes "0 \<le> i" "i \<le> 16"
  shows "js_rem (i + 1) 17 = (if i = 16 then 0 else i + 1)"
proof -
  have "(i + 1) mod 17 = (if i = 16 then 0 else i + 1)"
    using assms by presburger
  with assms show ?thesis
    by (simp add: js_rem_nonneg)
qed

lemma keyPressed_fixedPoint_range:
  assumes "0 \<le> bodyPointIndex s" "bodyPointIndex s \<le> 16"
  shows "0 \<le> bodyPointIndex (keyPressed_fixedPoint k code s) \<and>
         bodyPointIndex (keyPressed_fixedPoint k code s) \<le> 16"
  unfolding keyPressed_fixedPoint_index wrap_left [OF assms] wrap_right [OF assms]
  using assms by simp

lemma keyPressed_fixedPoint_poses [simp]:
  "poses (keyPressed_fixedPoint k code s) = poses s"
  by (simp add: keyPressed_fixedPoint_def Let_def)

lemma step_fixedPoint_total:
  assumes "poses s \<noteq> None" "0 \<le> bodyPointIndex s" "bodyPointIndex s \<le> 16"
  shows "\<exists>s'. step_fixedPoint e s = Inr s' \<and> poses s' \<noteq> None \<and>
          0 \<le> bodyPointIndex s' \<and> bodyPointIndex s' \<le> 16"
proof (cases e)
  case (Detected results)
  with assms show ?thesis
    by (simp add: poses_gotPoses_fixedPoint) (simp add: gotPoses_fixedPoint_def Let_def)
next
  case Draw
  with assms show ?thesis by (simp add: draw_fixedPoint_total)
next
  case (MouseClicked mx my)
  with assms show ?thesis by (simp add: mouseClicked_def)
next
  case (KeyPressed k code)
  with assms keyPressed_fixedPoint_range [OF assms(2,3), of k code] show ?thesis by simp
qed

lemma run_fixedPoint_total:
  "poses s \<noteq> None \<Longrightarrow> 0 \<le> bodyPointIndex s \<Longrightarrow> bodyPointIndex s \<le> 16 \<Longrightarrow>
   \<exists>s'. run step_fixedPoint es s = Inr s' \<and> poses s' \<noteq> None \<and>
        0 \<le> bodyPointIndex s' \<and> bodyPointIndex s' \<le> 16"
proof (induction es arbitrary: s)
  case Nil
  then show ?case by simp
next
  case (Cons e es)
  from step_fixedPoint_total [OF Cons.prems, of e] obtain s1 where
    s1: "step_fixedPoint e s = Inr s1" "poses s1 \<noteq> None"
      "0 \<le> bodyPointIndex s1" "bodyPointIndex s1 \<le> 16"
    by blast
  from Cons.IH [OF s1(2-4)] s1(1) show ?case by simp
qed

text \<open>
  Claim C10. \<open>bodyPointIndex\<close> starts at \<open>2\<close> and is in \<open>0..16\<close> after every sequence of
  events, so \<open>draw\<close> always calls \<open>getKeypoint\<close> with an index of the MoveNet schema.
  The left arrow maps the index \<open>i\<close> to \<open>(i - 1 + 17) % 17\<close> and the right arrow maps
  it to \<open>(i + 1) % 17\<close>: on \<open>0..16\<close> one down and one up, from \<open>0\<close> down to \<open>16\<close> and
  from \<open>16\<close> up to \<open>0\<close>.
\<close>

theorem bodyPointIndex_in_range:
  "(\<forall>es. \<exists>s. run step_fixedPoint es fixedPoint_init = Inr s \<and>
           0 \<le> bodyPointIndex s \<and> bodyPointIndex s \<le> 16) \<and>
   (\<forall>k s. bodyPointIndex (keyPressed_fixedPoint k LEFT_ARROW s) =
            js_rem (bodyPointIndex s - 1 + 17) 17 \<and>
          bodyPointIndex (keyPressed_fixedPoint k RIGHT_ARROW s) =
            js_rem (bodyPointIndex s + 1) 17) \<and>
   (\<forall>k s. 0 \<le> bodyPointIndex s \<and> bodyPointIndex s \<le> 16 \<longrightarrow>
      bodyPointIndex (keyPressed_fixedPoint k LEFT_ARROW s) =
        (if bodyPointIndex s = 0 then 16 else bodyPointIndex s - 1) \<and>
      bodyPointIndex (keyPressed_fixedPoint k RIGHT_ARROW s) =
        (if bodyPointIndex s = 16 then 0 else bodyPointIndex s + 1))"
proof (intro conjI allI impI)
  fix es
  show "\<exists>s. run step_fixedPoint es fixedPoint_init = Inr s \<and>
           0 \<le> bodyPointIndex s \<and> bodyPointIndex s \<le> 16"
    using run_fixedPoint_total [of fixedPoint_init es] by (auto simp: fixedPoint_init_def)
next
  fix k and s :: fixedPoint_state
  show "bodyPointIndex (keyPressed_fixedPoint k LEFT_ARROW s) =
            js_rem (bodyPointIndex s - 1 + 17) 17"
    by (simp add: keyPressed_fixedPoint_index)
  show "bodyPointIndex (keyPressed_fixedPoint k RIGHT_ARROW s) =
            js_rem (bodyPointIndex s + 1) 17"
    by (simp add: keyPressed_fixedPoint_index LEFT_ARROW_def RIGHT_ARROW_def)
next
  fix k and s :: fixedPoint_state
  assume "0 \<le> bodyPointIndex s \<and> bodyPointIndex s \<le> 16"
  then have a: "0 \<le> bodyPointIndex s" "bodyPointIndex s \<le> 16"
    by simp_all
  show "bodyPointIndex (keyPressed_fixedPoint k LEFT_ARROW s) =
        (if bodyPointIndex s = 0 then 16 else bodyPointIndex s - 1)"
    unfolding keyPressed_fixedPoint_index wrap_left [OF a] by simp
  show "bodyPointIndex (keyPressed_fixedPoint k RIGHT_ARROW s) =
        (if bodyPointIndex s = 16 then 0 else bodyPointIndex s + 1)"
    unfolding keyPressed_fixedPoint_index wrap_right [OF a]
    by (simp add: LEFT_ARROW_def RIGHT_ARROW_def)
qed

theorem bodyPointIndex_in_range_witness:
  "bodyPointIndex (keyPressed_fixedPoint ''ArrowLeft'' LEFT_ARROW fixedPoint_init) = 1 \<and>
   bodyPointIndex (keyPressed_fixedPoint ''ArrowRight'' RIGHT_ARROW fixedPoint_init) = 3 \<and>
   bodyPointIndex (keyPressed_fixedPoint ''ArrowLeft'' LEFT_ARROW
      (fixedPoint_init\<lparr>bodyPointIndex := 0\<rparr>)) = 16 \<and>
   bodyPointIndex (keyPressed_fixedPoint ''ArrowRight'' RIGHT_ARROW
      (fixedPoint_init\<lparr>bodyPointIndex := 16\<rparr>)) = 0"
proof -
  note t = bodyPointIndex_in_range [THEN conjunct2, THEN conjunct2, THEN spec, THEN spec, THEN mp]
  have a: "0 \<le> bodyPointIndex fixedPoint_init \<and> bodyPointIndex fixedPoint_init \<le> 16"
    by (simp add: fixedPoint_init_def)
  have b: "0 \<le> bodyPointIndex (fixedPoint_init\<lparr>bodyPointIndex := 0\<rparr>) \<and>
           bodyPointIndex (fixedPoint_init\<lparr>bodyPointIndex := 0\<rparr>) \<le> 16"
    by simp
  have c: "0 \<le> bodyPointIndex (fixedPoint_init\<lparr>bodyPointIndex := 16\<rparr>) \<and>
           bodyPointIndex (fixedPoint_init\<lparr>bodyPointIndex := 16\<rparr>) \<le> 16"
    by simp
  from t [OF a, of "''ArrowLeft''"] t [OF a, of "''ArrowRight''"]
    t [OF b, of "''ArrowLeft''"] t [OF c, of "''ArrowRight''"]
  show ?thesis
    by (simp add: fixedPoint_init_def)
qed

end
